theory Spec2Isabelle
  imports Main "HOL-Library.Sublist" "HOL-Library.Word"
begin

section \<open>Strings, arrays and regular expressions of the host language\<close>

text \<open>
  The identity storage manager (\<^verbatim>\<open>IdentityStorageManager.ts\<close>) is written in TypeScript.
  A string is a sequence of UTF-16 code units, each a word of 16 bits; \<open>str\<close> writes a
  string of code units below 256 as a literal. \<^verbatim>\<open>undefined\<close> arguments are \<open>None\<close>,
  exceptions are \<open>Inl\<close> values of a sum type.
\<close>

type_synonym code_unit = "16 word"

type_synonym jstring = "code_unit list"

definition cu :: "char \<Rightarrow> code_unit" where
  "cu c = of_nat (of_char c)"

definition str :: "string \<Rightarrow> jstring" where
  "str s = map cu s"

datatype error = SyntaxError | NotModelled

definition backslash :: code_unit where
  "backslash = cu (CHR 0x5C)"

text \<open>\<^verbatim>\<open>s.split('')\<close>: one string per code unit.\<close>

definition split_chars :: "jstring \<Rightarrow> jstring list" where
  "split_chars s = map (\<lambda>c. [c]) s"

text \<open>
  \<^verbatim>\<open>Array.prototype.join\<close>: the result \<open>R\<close> starts empty; for each element in turn the
  separator is appended first unless the element is the first one, then the element.
\<close>

fun join_loop :: "jstring \<Rightarrow> jstring \<Rightarrow> bool \<Rightarrow> jstring list \<Rightarrow> jstring" where
  "join_loop sep R first [] = R"
| "join_loop sep R first (x # xs) = join_loop sep ((if first then R else R @ sep) @ x) False xs"

definition array_join :: "jstring list \<Rightarrow> jstring \<Rightarrow> jstring" where
  "array_join xs sep = join_loop sep [] True xs"

subsection \<open>Regular expression syntax\<close>

text \<open>
  \<^verbatim>\<open>new RegExp(pattern, flags)\<close> parses the pattern and throws a \<^verbatim>\<open>SyntaxError\<close> when it is
  not well formed. The parser below reads the pattern left to right, as the grammar of
  ECMAScript (without the \<^verbatim>\<open>u\<close> flag, with the web-compatibility extensions) prescribes for:
  pattern characters, \<^verbatim>\<open>.\<close>, the assertions \<^verbatim>\<open>^\<close> and \<^verbatim>\<open>$\<close>, alternation, capturing
  groups, character classes with ranges and negation, the quantifiers \<^verbatim>\<open>*\<close>, \<^verbatim>\<open>+\<close>,
  \<^verbatim>\<open>?\<close> and their lazy forms, and a backslash before a syntax character. A lone \<^verbatim>\<open>]\<close>,
  \<^verbatim>\<open>{\<close> or \<^verbatim>\<open>}\<close> is a literal character there. Every other construct (\<^verbatim>\<open>(?\<close> groups,
  other escapes, braced quantifiers) yields \<open>NotModelled\<close>.
\<close>

datatype qkind = QStar | QPlus | QOpt

datatype regex =
    Empty
  | Chr code_unit
  | AnyChar
  | Cls bool "(code_unit \<times> code_unit) list"
  | BOL
  | EOL
  | Seq regex regex
  | Alt regex regex
  | Group regex
  | Quant qkind bool regex

datatype prev_term = Nothing | GroupOpened | Atom | AtomBrace | Greedy | Lazy

datatype cpend = CNone | CAtom code_unit | CDash code_unit

datatype pmode =
    Normal
  | Escaped
  | ClassOpen
  | InClass bool "(code_unit \<times> code_unit) list" cpend
  | ClassEsc bool "(code_unit \<times> code_unit) list" cpend

record pstate =
  p_stack :: "(regex list \<times> regex list) list"
  p_alts :: "regex list"
  p_cur :: "regex list"
  p_prev :: prev_term
  p_mode :: pmode

definition SyntaxCharacter :: "code_unit \<Rightarrow> bool" where
  "SyntaxCharacter c \<longleftrightarrow> c \<in> set (str ''^$.*+?()[]{}|'') \<or> c = backslash"

definition DecimalDigit :: "code_unit \<Rightarrow> bool" where
  "DecimalDigit c \<longleftrightarrow> c \<in> set (str ''0123456789'')"

definition alternative :: "regex list \<Rightarrow> regex" where
  "alternative ts = foldr Seq (rev ts) Empty"

fun alt_list :: "regex list \<Rightarrow> regex" where
  "alt_list [] = Empty"
| "alt_list [a] = a"
| "alt_list (a # b # bs) = Alt a (alt_list (b # bs))"

definition disjunction :: "regex list \<Rightarrow> regex list \<Rightarrow> regex" where
  "disjunction as ts = alt_list (as @ [alternative ts])"

definition push_atom :: "regex \<Rightarrow> pstate \<Rightarrow> pstate" where
  "push_atom r st = st\<lparr>p_cur := r # p_cur st, p_prev := Atom, p_mode := Normal\<rparr>"

definition apply_quantifier :: "qkind \<Rightarrow> pstate \<Rightarrow> error + pstate" where
  "apply_quantifier q st =
     (case p_cur st of
        [] \<Rightarrow> Inl SyntaxError
      | t # ts \<Rightarrow> Inr (st\<lparr>p_cur := Quant q True t # ts, p_prev := Greedy\<rparr>))"

definition make_lazy :: "pstate \<Rightarrow> error + pstate" where
  "make_lazy st =
     (case p_cur st of
        Quant k g t # ts \<Rightarrow> Inr (st\<lparr>p_cur := Quant k False t # ts, p_prev := Lazy\<rparr>)
      | _ \<Rightarrow> Inl SyntaxError)"

definition quantify :: "qkind \<Rightarrow> pstate \<Rightarrow> error + pstate" where
  "quantify q st =
     (case p_prev st of
        Atom \<Rightarrow> apply_quantifier q st
      | AtomBrace \<Rightarrow> apply_quantifier q st
      | Greedy \<Rightarrow> (if q = QOpt then make_lazy st else Inl SyntaxError)
      | GroupOpened \<Rightarrow> (if q = QOpt then Inl NotModelled else Inl SyntaxError)
      | Nothing \<Rightarrow> Inl SyntaxError
      | Lazy \<Rightarrow> Inl SyntaxError)"

definition class_atom ::
  "bool \<Rightarrow> (code_unit \<times> code_unit) list \<Rightarrow> cpend \<Rightarrow> code_unit \<Rightarrow> pstate \<Rightarrow> error + pstate" where
  "class_atom neg rs pend a st =
     (case pend of
        CNone \<Rightarrow> Inr (st\<lparr>p_mode := InClass neg rs (CAtom a)\<rparr>)
      | CAtom c \<Rightarrow> Inr (st\<lparr>p_mode := InClass neg (rs @ [(c, c)]) (CAtom a)\<rparr>)
      | CDash c \<Rightarrow>
          (if a < c then Inl SyntaxError
           else Inr (st\<lparr>p_mode := InClass neg (rs @ [(c, a)]) CNone\<rparr>)))"

definition class_close :: "bool \<Rightarrow> (code_unit \<times> code_unit) list \<Rightarrow> cpend \<Rightarrow> pstate \<Rightarrow> pstate" where
  "class_close neg rs pend st =
     push_atom (Cls neg (rs @ (case pend of
                                 CNone \<Rightarrow> []
                               | CAtom c \<Rightarrow> [(c, c)]
                               | CDash c \<Rightarrow> [(c, c), (cu CHR ''-'', cu CHR ''-'')]))) st"

definition class_step ::
  "bool \<Rightarrow> (code_unit \<times> code_unit) list \<Rightarrow> cpend \<Rightarrow> code_unit \<Rightarrow> pstate \<Rightarrow> error + pstate" where
  "class_step neg rs pend x st =
     (if x = cu CHR '']'' then Inr (class_close neg rs pend st)
      else if x = backslash then Inr (st\<lparr>p_mode := ClassEsc neg rs pend\<rparr>)
      else if x = cu CHR ''-'' then
        (case pend of
           CAtom c \<Rightarrow> Inr (st\<lparr>p_mode := InClass neg rs (CDash c)\<rparr>)
         | _ \<Rightarrow> class_atom neg rs pend x st)
      else class_atom neg rs pend x st)"

definition normal_step :: "code_unit \<Rightarrow> pstate \<Rightarrow> error + pstate" where
  "normal_step x st =
     (if x = backslash then Inr (st\<lparr>p_mode := Escaped\<rparr>)
      else if x = cu CHR ''['' then Inr (st\<lparr>p_mode := ClassOpen\<rparr>)
      else if x = cu CHR ''('' then
        Inr (st\<lparr>p_stack := (p_alts st, p_cur st) # p_stack st,
                p_alts := [], p_cur := [], p_prev := GroupOpened\<rparr>)
      else if x = cu CHR '')'' then
        (case p_stack st of
           [] \<Rightarrow> Inl SyntaxError
         | (as, ts) # rest \<Rightarrow>
             Inr (st\<lparr>p_stack := rest, p_alts := as,
                     p_cur := Group (disjunction (p_alts st) (p_cur st)) # ts,
                     p_prev := Atom\<rparr>))
      else if x = cu CHR ''|'' then
        Inr (st\<lparr>p_alts := p_alts st @ [alternative (p_cur st)], p_cur := [], p_prev := Nothing\<rparr>)
      else if x = cu CHR ''^'' then Inr (st\<lparr>p_cur := BOL # p_cur st, p_prev := Nothing\<rparr>)
      else if x = cu CHR ''$'' then Inr (st\<lparr>p_cur := EOL # p_cur st, p_prev := Nothing\<rparr>)
      else if x = cu CHR ''.'' then Inr (push_atom AnyChar st)
      else if x = cu CHR ''*'' then quantify QStar st
      else if x = cu CHR ''+'' then quantify QPlus st
      else if x = cu CHR ''?'' then quantify QOpt st
      else if x = cu CHR ''{'' then Inr (st\<lparr>p_cur := Chr x # p_cur st, p_prev := AtomBrace\<rparr>)
      else if p_prev st = AtomBrace \<and> DecimalDigit x then Inl NotModelled
      else Inr (push_atom (Chr x) st))"

definition step :: "pstate \<Rightarrow> code_unit \<Rightarrow> error + pstate" where
  "step st x =
     (case p_mode st of
        Normal \<Rightarrow> normal_step x st
      | Escaped \<Rightarrow>
          (if SyntaxCharacter x \<or> x = cu CHR ''/'' then Inr (push_atom (Chr x) st)
           else Inl NotModelled)
      | ClassOpen \<Rightarrow>
          (if x = cu CHR ''^'' then Inr (st\<lparr>p_mode := InClass True [] CNone\<rparr>)
           else class_step False [] CNone x st)
      | InClass neg rs pend \<Rightarrow> class_step neg rs pend x st
      | ClassEsc neg rs pend \<Rightarrow>
          (if SyntaxCharacter x \<or> x = cu CHR ''-'' \<or> x = cu CHR ''/''
           then class_atom neg rs pend x st
           else Inl NotModelled))"

fun parse_from :: "pstate \<Rightarrow> jstring \<Rightarrow> error + pstate" where
  "parse_from st [] = Inr st"
| "parse_from st (x # xs) =
     (case step st x of Inl e \<Rightarrow> Inl e | Inr st' \<Rightarrow> parse_from st' xs)"

definition finish :: "pstate \<Rightarrow> error + regex" where
  "finish st =
     (if p_mode st \<noteq> Normal then Inl SyntaxError
      else if p_stack st \<noteq> [] then Inl SyntaxError
      else Inr (disjunction (p_alts st) (p_cur st)))"

definition initial :: pstate where
  "initial = \<lparr>p_stack = [], p_alts = [], p_cur = [], p_prev = Nothing, p_mode = Normal\<rparr>"

definition parsePattern :: "jstring \<Rightarrow> error + regex" where
  "parsePattern p = (case parse_from initial p of Inl e \<Rightarrow> Inl e | Inr st \<Rightarrow> finish st)"

text \<open>
  Matching without regard to case goes through \<^verbatim>\<open>toUpperCase\<close> of the host, which maps
  the string of one code unit to its upper-case form by the Unicode tables. The source does
  not hold these tables: for the code units from 128 on the mapping is a parameter, the
  \<open>case_table\<close>, which a compiled expression keeps for its matching. Of the flags, only
  \<^verbatim>\<open>i\<close> is covered.
\<close>

type_synonym case_table = "code_unit \<Rightarrow> jstring"

record RegExp =
  matcher :: regex
  ignoreCase :: bool
  caseTable :: case_table

definition RegExp_new :: "case_table \<Rightarrow> jstring \<Rightarrow> jstring \<Rightarrow> error + RegExp" where
  "RegExp_new U pattern flags =
     (if flags \<noteq> str ''i'' \<and> flags \<noteq> [] then Inl NotModelled
      else case parsePattern pattern of
             Inl e \<Rightarrow> Inl e
           | Inr r \<Rightarrow> Inr \<lparr>matcher = r, ignoreCase = (flags = str ''i''), caseTable = U\<rparr>)"

subsection \<open>Regular expression matching\<close>

text \<open>
  With \<^verbatim>\<open>i\<close>, two code units match when their canonical forms agree. The canonical form
  of a code unit \<open>ch\<close> is the code unit of its upper-case form, unless that form is not a
  single code unit, or is below 128 while \<open>ch\<close> is not: then it is \<open>ch\<close> itself. Below
  128 the upper-case mapping takes \<^verbatim>\<open>a\<close> to \<^verbatim>\<open>z\<close> to \<^verbatim>\<open>A\<close> to \<^verbatim>\<open>Z\<close> and leaves the
  other code units. \<^verbatim>\<open>.\<close> matches every code unit but the four line terminators: line
  feed, carriage return, line separator and paragraph separator.
\<close>

definition Canonicalize :: "case_table \<Rightarrow> bool \<Rightarrow> code_unit \<Rightarrow> code_unit" where
  "Canonicalize U ic ch =
     (if \<not> ic then ch
      else if ch < 128 then (if 97 \<le> ch \<and> ch \<le> 122 then ch - 32 else ch)
      else (case U ch of
              [u] \<Rightarrow> if u < 128 then ch else u
            | _ \<Rightarrow> ch))"

definition LineTerminator :: "code_unit \<Rightarrow> bool" where
  "LineTerminator c \<longleftrightarrow> c = 0x000A \<or> c = 0x000D \<or> c = 0x2028 \<or> c = 0x2029"

definition class_has ::
  "case_table \<Rightarrow> bool \<Rightarrow> (code_unit \<times> code_unit) list \<Rightarrow> code_unit \<Rightarrow> bool" where
  "class_has U ic rs x =
     list_ex (\<lambda>(lo, hi). list_ex (\<lambda>n. Canonicalize U ic (of_nat n) = Canonicalize U ic x)
                                  [unat lo ..< Suc (unat hi)]) rs"

text \<open>
  A position is the rest of the input together with a flag telling whether it is the start
  of the input. \<open>ends r U ic p\<close> lists the positions where a match of \<open>r\<close> begun at \<open>p\<close> can
  end. An iteration of a quantified term that consumes nothing is dropped, so at most
  as many iterations as there are characters left are needed.
\<close>

type_synonym pos = "bool \<times> jstring"

fun star_from :: "(pos \<Rightarrow> pos list) \<Rightarrow> nat \<Rightarrow> pos \<Rightarrow> pos list" where
  "star_from f 0 p = [p]"
| "star_from f (Suc n) p =
     p # concat (map (star_from f n) (filter (\<lambda>q. length (snd q) < length (snd p)) (f p)))"

primrec ends :: "regex \<Rightarrow> case_table \<Rightarrow> bool \<Rightarrow> pos \<Rightarrow> pos list" where
  "ends Empty U ic p = [p]"
| "ends (Chr c) U ic p =
     (case snd p of
        [] \<Rightarrow> []
      | x # xs \<Rightarrow> if Canonicalize U ic x = Canonicalize U ic c then [(False, xs)] else [])"
| "ends AnyChar U ic p =
     (case snd p of
        [] \<Rightarrow> []
      | x # xs \<Rightarrow> if LineTerminator x then [] else [(False, xs)])"
| "ends (Cls neg rs) U ic p =
     (case snd p of
        [] \<Rightarrow> []
      | x # xs \<Rightarrow> if class_has U ic rs x \<noteq> neg then [(False, xs)] else [])"
| "ends BOL U ic p = (if fst p then [p] else [])"
| "ends EOL U ic p = (if snd p = [] then [p] else [])"
| "ends (Seq r s) U ic p = concat (map (ends s U ic) (ends r U ic p))"
| "ends (Alt r s) U ic p = ends r U ic p @ ends s U ic p"
| "ends (Group r) U ic p = ends r U ic p"
| "ends (Quant k g r) U ic p =
     (case k of
        QOpt \<Rightarrow> p # ends r U ic p
      | QStar \<Rightarrow> star_from (ends r U ic) (length (snd p)) p
      | QPlus \<Rightarrow>
          concat (map (\<lambda>q. star_from (ends r U ic) (length (snd q)) q) (ends r U ic p)))"

text \<open>A search tries every start position, from the left.\<close>

fun search :: "regex \<Rightarrow> case_table \<Rightarrow> bool \<Rightarrow> bool \<Rightarrow> jstring \<Rightarrow> bool" where
  "search r U ic b [] = (ends r U ic (b, []) \<noteq> [])"
| "search r U ic b (x # xs) = (ends r U ic (b, x # xs) \<noteq> [] \<or> search r U ic False xs)"

definition RegExp_test :: "RegExp \<Rightarrow> jstring \<Rightarrow> bool" where
  "RegExp_test re s = search (matcher re) (caseTable re) (ignoreCase re) True s"

subsection \<open>The fuzzy pattern\<close>

text \<open>
  \<^verbatim>\<open>input.replace(/[.*+?^${}()|[\]\\]/g, '\\$&')\<close> puts a backslash before each of the
  fourteen characters of the class; \<^verbatim>\<open>getFuzzyRegex\<close> then splits the escaped string into
  code units, joins them with \<^verbatim>\<open>.*\<close> and compiles the result with the flag \<^verbatim>\<open>i\<close>.
\<close>

definition escaped_class :: "code_unit \<Rightarrow> bool" where
  "escaped_class c \<longleftrightarrow> c \<in> set (str ''.*+?^${}()|[]'') \<or> c = backslash"

definition escapedInput :: "jstring \<Rightarrow> jstring" where
  "escapedInput input = concat (map (\<lambda>c. if escaped_class c then [backslash, c] else [c]) input)"

definition getFuzzyRegex :: "case_table \<Rightarrow> jstring \<Rightarrow> error + RegExp" where
  "getFuzzyRegex U input =
     RegExp_new U (array_join (split_chars (escapedInput input)) (str ''.*'')) (str ''i'')"

section \<open>Identity records and the record store\<close>

text \<open>
  A certificate carries its type, serial number, subject, certifier and fields; the fields
  are listed in the order \<^verbatim>\<open>Object.entries\<close> enumerates them. A stored record extends
  the reference \<^verbatim>\<open>{txid, outputIndex}\<close> by the certificate, the creation time and the
  searchable text.
\<close>

record Certificate =
  cert_type :: jstring
  serialNumber :: jstring
  subject :: jstring
  certifier :: jstring
  fields' :: "(jstring \<times> jstring) list"

record UTXOReference =
  txid :: jstring
  outputIndex :: int

record IdentityRecord = UTXOReference +
  certificate :: Certificate
  createdAt :: nat
  searchableAttributes :: jstring

text \<open>The collection \<^verbatim>\<open>identityRecords\<close>, in insertion order.\<close>

type_synonym collection = "IdentityRecord list"

text \<open>
  A query document is a conjunction of clauses, each a path into the record with a
  condition: equality with a string, \<^verbatim>\<open>$in\<close> with a list (or with \<^verbatim>\<open>undefined\<close>), or a
  regular expression. \<open>Field k\<close> is the path \<^verbatim>\<open>certificate.fields.k\<close>.
\<close>

datatype path = Subject | Certifier | CertType | SerialNumber | SearchableAttributes | Field jstring

datatype condition = Equals jstring | In "jstring list option" | Matches RegExp

type_synonym query = "(path \<times> condition) list"

text \<open>
  Modelled from the spec: the record store is an external collaborator (a MongoDB
  collection), of which the source only holds the handle. It supports insert-one,
  delete-by-exact-filter removing at most one record, and predicate queries with equality,
  set-membership and pattern clauses; membership in an undefined set matches nothing. A
  pattern clause holds of a string in which the compiled expression matches at some place;
  no clause holds of a field that the record does not have. A dot in a path descends into
  a nested value: the fields of a certificate are strings, so the path of a key with a
  dot leads to nothing. Failures of the store itself are not modelled.
\<close>

definition lookup :: "path \<Rightarrow> IdentityRecord \<Rightarrow> jstring option" where
  "lookup p r =
     (case p of
        Subject \<Rightarrow> Some (subject (certificate r))
      | Certifier \<Rightarrow> Some (certifier (certificate r))
      | CertType \<Rightarrow> Some (cert_type (certificate r))
      | SerialNumber \<Rightarrow> Some (serialNumber (certificate r))
      | SearchableAttributes \<Rightarrow> Some (searchableAttributes r)
      | Field k \<Rightarrow>
          if cu CHR ''.'' \<in> set k then None else map_of (fields' (certificate r)) k)"

definition holds :: "condition \<Rightarrow> jstring option \<Rightarrow> bool" where
  "holds c v =
     (case v of
        None \<Rightarrow> False
      | Some s \<Rightarrow>
          (case c of
             Equals t \<Rightarrow> s = t
           | In None \<Rightarrow> False
           | In (Some ts) \<Rightarrow> s \<in> set ts
           | Matches re \<Rightarrow> RegExp_test re s))"

definition satisfies :: "query \<Rightarrow> IdentityRecord \<Rightarrow> bool" where
  "satisfies q r = list_all (\<lambda>(p, c). holds c (lookup p r)) q"

definition find :: "query \<Rightarrow> collection \<Rightarrow> IdentityRecord list" where
  "find q records = filter (satisfies q) records"

definition insertOne :: "IdentityRecord \<Rightarrow> collection \<Rightarrow> collection" where
  "insertOne r records = records @ [r]"

fun deleteOne :: "jstring \<Rightarrow> int \<Rightarrow> collection \<Rightarrow> collection" where
  "deleteOne t i [] = []"
| "deleteOne t i (r # rs) =
     (if txid r = t \<and> outputIndex r = i then rs else r # deleteOne t i rs)"

section \<open>The identity storage manager\<close>

text \<open>
  Each operation takes the collection and returns the collection it leaves; a find
  operation returns its result beside it. \<^verbatim>\<open>new Date()\<close> is the argument \<open>now\<close>, and the
  case table of the host is the argument \<open>U\<close> of the operation that compiles patterns.
\<close>

definition storeRecord ::
  "jstring \<Rightarrow> int \<Rightarrow> Certificate \<Rightarrow> nat \<Rightarrow> collection \<Rightarrow> collection" where
  "storeRecord t i cert now records =
     insertOne
       \<lparr>txid = t, outputIndex = i, certificate = cert, createdAt = now,
        searchableAttributes =
          array_join
            (map (\<lambda>(key, v). v)
               (filter (\<lambda>(key, v). key \<noteq> str ''profilePhoto'' \<and> key \<noteq> str ''icon'') (fields' cert)))
            (str '' '')\<rparr>
       records"

definition deleteRecord :: "jstring \<Rightarrow> int \<Rightarrow> collection \<Rightarrow> collection" where
  "deleteRecord t i records = deleteOne t i records"

type_synonym 'a outcome = "(error + 'a) \<times> collection"

definition findRecordWithQuery :: "query \<Rightarrow> collection \<Rightarrow> UTXOReference list outcome" where
  "findRecordWithQuery q records =
     (let results = find q records;
          parsedResults = map (\<lambda>r. \<lparr>txid = txid r, outputIndex = outputIndex r\<rparr>) results
      in (Inr parsedResults, records))"

fun attributeQueries :: "case_table \<Rightarrow> (jstring \<times> jstring) list \<Rightarrow> error + query" where
  "attributeQueries U [] = Inr []"
| "attributeQueries U ((key, v) # rest) =
     (case getFuzzyRegex U v of
        Inl e \<Rightarrow> Inl e
      | Inr re \<Rightarrow>
          (case attributeQueries U rest of
             Inl e \<Rightarrow> Inl e
           | Inr cs \<Rightarrow> Inr ((Field key, Matches re) # cs)))"

text \<open>
  The query of \<^verbatim>\<open>findByAttribute\<close>: the certifier clause first, then either the single
  clause for \<^verbatim>\<open>any\<close> or one clause per attribute. A \<^verbatim>\<open>SyntaxError\<close> thrown while a
  pattern is compiled ends the call.
\<close>

definition attributeQuery ::
  "case_table \<Rightarrow> (jstring \<times> jstring) list \<Rightarrow> jstring list option \<Rightarrow> error + query" where
  "attributeQuery U attributes certifiers =
     (let query = [(Certifier, In certifiers)] in
      case map_of attributes (str ''any'') of
        Some v \<Rightarrow>
          (case getFuzzyRegex U v of
             Inl e \<Rightarrow> Inl e
           | Inr regexQuery \<Rightarrow> Inr (query @ [(SearchableAttributes, Matches regexQuery)]))
      | None \<Rightarrow>
          (case attributeQueries U attributes of
             Inl e \<Rightarrow> Inl e
           | Inr cs \<Rightarrow> Inr (query @ cs)))"

definition findByAttribute ::
  "case_table \<Rightarrow> (jstring \<times> jstring) list option \<Rightarrow> jstring list option \<Rightarrow> collection
     \<Rightarrow> UTXOReference list outcome" where
  "findByAttribute U attributes certifiers records =
     (case attributes of
        None \<Rightarrow> (Inr [], records)
      | Some attrs \<Rightarrow>
          if length attrs = 0 then (Inr [], records)
          else (case attributeQuery U attrs certifiers of
                  Inl e \<Rightarrow> (Inl e, records)
                | Inr q \<Rightarrow> findRecordWithQuery q records))"

definition findByIdentityKey ::
  "jstring option \<Rightarrow> jstring list option \<Rightarrow> collection \<Rightarrow> UTXOReference list outcome" where
  "findByIdentityKey identityKey certifiers records =
     (case identityKey of
        None \<Rightarrow> (Inr [], records)
      | Some k \<Rightarrow>
          (let query = [(Subject, Equals k)];
               query' = (case certifiers of
                           None \<Rightarrow> query
                         | Some cs \<Rightarrow>
                             if length cs > 0 then query @ [(Certifier, In (Some cs))]
                             else query)
           in findRecordWithQuery query' records))"

definition findByCertifier ::
  "jstring list option \<Rightarrow> collection \<Rightarrow> UTXOReference list outcome" where
  "findByCertifier certifiers records =
     (case certifiers of
        None \<Rightarrow> (Inr [], records)
      | Some cs \<Rightarrow>
          if length cs = 0 then (Inr [], records)
          else findRecordWithQuery [(Certifier, In (Some cs))] records)"

definition findByCertificateType ::
  "jstring list option \<Rightarrow> jstring option \<Rightarrow> jstring list option \<Rightarrow> collection
     \<Rightarrow> UTXOReference list outcome" where
  "findByCertificateType certificateTypes identityKey certifiers records =
     (case certificateTypes of
        None \<Rightarrow> (Inr [], records)
      | Some ts \<Rightarrow>
          if length ts = 0 then (Inr [], records)
          else (case identityKey of
                  None \<Rightarrow> (Inr [], records)
                | Some k \<Rightarrow>
                    (case certifiers of
                       None \<Rightarrow> (Inr [], records)
                     | Some cs \<Rightarrow>
                         if length cs = 0 then (Inr [], records)
                         else findRecordWithQuery
                                [(Subject, Equals k), (Certifier, In (Some cs)),
                                 (CertType, In (Some ts))]
                                records)))"

text \<open>The two \<^verbatim>\<open>console.log\<close> calls of this operation are left out.\<close>

definition findByCertificateSerialNumber ::
  "jstring option \<Rightarrow> collection \<Rightarrow> UTXOReference list outcome" where
  "findByCertificateSerialNumber serialNumber' records =
     (case serialNumber' of
        None \<Rightarrow> (Inr [], records)
      | Some sn \<Rightarrow>
          if sn = [] then (Inr [], records)
          else findRecordWithQuery [(SerialNumber, Equals sn)] records)"

section \<open>Notions of the specification\<close>

text \<open>
  The searchable text in the words of the specification: the values of the fields other
  than \<^verbatim>\<open>profilePhoto\<close> and \<^verbatim>\<open>icon\<close>, joined by single spaces.
\<close>

fun space_joined :: "jstring list \<Rightarrow> jstring" where
  "space_joined [] = []"
| "space_joined [x] = x"
| "space_joined (x # y # ys) = x @ str '' '' @ space_joined (y # ys)"

definition textual_values :: "Certificate \<Rightarrow> jstring list" where
  "textual_values cert = [v. (k, v) \<leftarrow> fields' cert, k \<noteq> str ''profilePhoto'', k \<noteq> str ''icon'']"

definition reference_of :: "IdentityRecord \<Rightarrow> UTXOReference" where
  "reference_of r = \<lparr>txid = txid r, outputIndex = outputIndex r\<rparr>"

text \<open>
  The pattern compiled from an input \<open>c\<^sub>1 \<dots> c\<^sub>n\<close> without characters of the escaped class is
  \<open>c\<^sub>1\<close>\<^verbatim>\<open>.*\<close>\<open>c\<^sub>2\<close>\<^verbatim>\<open>.*\<close>\<open>\<dots>c\<^sub>n\<close>.
\<close>

definition wildcard :: regex where
  "wildcard = Quant QStar True AnyChar"

fun gapped :: "jstring \<Rightarrow> regex" where
  "gapped [] = Empty"
| "gapped (d # ds) = Seq wildcard (Seq (Chr d) (gapped ds))"

fun fuzzy_regex :: "jstring \<Rightarrow> regex" where
  "fuzzy_regex [] = Empty"
| "fuzzy_regex (c # cs) = Seq (Chr c) (gapped cs)"

text \<open>
  The fuzzy subsequence rule: the code units of the query occur in the target in order,
  up to case; the code units between two of them are no line terminators. \<open>gap_match\<close>
  reads the target after a matched character, \<open>anchored\<close> matches the first character of
  the query at the head of the target, \<open>fuzzy_match\<close> at any place.
\<close>

definition same_letter :: "case_table \<Rightarrow> code_unit \<Rightarrow> code_unit \<Rightarrow> bool" where
  "same_letter U a b \<longleftrightarrow> Canonicalize U True a = Canonicalize U True b"

fun gap_match :: "case_table \<Rightarrow> jstring \<Rightarrow> jstring \<Rightarrow> bool" where
  "gap_match U [] u = True"
| "gap_match U (d # ds) [] = False"
| "gap_match U (d # ds) (x # xs) =
     ((same_letter U x d \<and> gap_match U ds xs) \<or>
      (\<not> LineTerminator x \<and> gap_match U (d # ds) xs))"

fun anchored :: "case_table \<Rightarrow> jstring \<Rightarrow> jstring \<Rightarrow> bool" where
  "anchored U [] u = True"
| "anchored U (c # cs) [] = False"
| "anchored U (c # cs) (x # xs) = (same_letter U x c \<and> gap_match U cs xs)"

fun fuzzy_match :: "case_table \<Rightarrow> jstring \<Rightarrow> jstring \<Rightarrow> bool" where
  "fuzzy_match U s [] = anchored U s []"
| "fuzzy_match U s (x # xs) = (anchored U s (x # xs) \<or> fuzzy_match U s xs)"

text \<open>\<open>insert_between s gaps\<close> puts the \<open>k\<close>-th gap between the \<open>k\<close>-th character of \<open>s\<close> and the next.\<close>

fun insert_between :: "jstring \<Rightarrow> jstring list \<Rightarrow> jstring" where
  "insert_between (c # d # cs) (g # gs) = c # g @ insert_between (d # cs) gs"
| "insert_between cs gs = cs"

text \<open>
  An executable test of whether the characters of the query occur in the target in order,
  up to case.
\<close>

fun in_order :: "case_table \<Rightarrow> jstring \<Rightarrow> jstring \<Rightarrow> bool" where
  "in_order U [] t = True"
| "in_order U (c # cs) [] = False"
| "in_order U (c # cs) (x # xs) =
     (if same_letter U c x then in_order U cs xs else in_order U (c # cs) xs)"

text \<open>
  What each find operation looks for, in the words of the specification. A record is
  within the certifiers when its certifier is a member of the list; an undefined list has
  no members. With the key \<^verbatim>\<open>any\<close> only its entry is consulted, against the searchable
  text; every other key is consulted against the field of its name. An entry holds of a
  record when the pattern compiled from its value matches the text it is consulted
  against.
\<close>

definition within :: "jstring list option \<Rightarrow> jstring \<Rightarrow> bool" where
  "within allowed x = (case allowed of None \<Rightarrow> False | Some xs \<Rightarrow> x \<in> set xs)"

definition consulted :: "(jstring \<times> jstring) list \<Rightarrow> (jstring \<times> jstring) list" where
  "consulted attrs =
     (case map_of attrs (str ''any'') of
        Some v \<Rightarrow> [(str ''any'', v)]
      | None \<Rightarrow> attrs)"

definition searched_text :: "jstring \<Rightarrow> IdentityRecord \<Rightarrow> jstring option" where
  "searched_text key r =
     (if key = str ''any'' then Some (searchableAttributes r)
      else if cu CHR ''.'' \<in> set key then None
      else map_of (fields' (certificate r)) key)"

definition compiles :: "case_table \<Rightarrow> jstring \<Rightarrow> bool" where
  "compiles U v = (case getFuzzyRegex U v of Inl e \<Rightarrow> False | Inr re \<Rightarrow> True)"

definition entry_holds :: "case_table \<Rightarrow> jstring \<times> jstring \<Rightarrow> IdentityRecord \<Rightarrow> bool" where
  "entry_holds U entry r =
     (case getFuzzyRegex U (snd entry) of
        Inl e \<Rightarrow> False
      | Inr re \<Rightarrow>
          (case searched_text (fst entry) r of
             None \<Rightarrow> False
           | Some text \<Rightarrow> RegExp_test re text))"

subsection \<open>Example data\<close>

definition certA :: Certificate where
  "certA = \<lparr>cert_type = str ''typeA'', serialNumber = str ''sn1'', subject = str ''pub1'',
            certifier = str ''cert1'', fields' = [(str ''name'', str ''Alice Smith'')]\<rparr>"

definition certB :: Certificate where
  "certB = \<lparr>cert_type = str ''typeA'', serialNumber = str ''sn2'', subject = [],
            certifier = str ''cert1'',
            fields' = [(str ''name'', str ''Bob''), (str ''icon'', str ''AAAA''),
                       (str ''email'', str ''bob@example.com'')]\<rparr>"

definition storeA :: collection where
  "storeA = storeRecord (str ''t1'') 0 certA 5 []"

definition storeB :: collection where
  "storeB = storeRecord (str ''t2'') 1 certB 7 storeA"

subsection \<open>Parser states between the pieces of a joined pattern\<close>

text \<open>
  In a pattern joined with \<^verbatim>\<open>.*\<close>, every character of the escaped input is followed by
  \<^verbatim>\<open>.*\<close> or ends the pattern. \<open>stable\<close> holds of the parser states after a \<^verbatim>\<open>.*\<close>,
  \<open>after_dot\<close> of the states after the \<^verbatim>\<open>.\<close>.
\<close>

definition stable :: "pstate \<Rightarrow> bool" where
  "stable st \<longleftrightarrow>
     (case p_mode st of
        Normal \<Rightarrow> p_prev st \<noteq> GroupOpened \<and> p_prev st \<noteq> AtomBrace
      | InClass neg rs pend \<Rightarrow> True
      | _ \<Rightarrow> False)"

definition after_dot :: "pstate \<Rightarrow> bool" where
  "after_dot st \<longleftrightarrow>
     (case p_mode st of
        Normal \<Rightarrow> p_prev st = Atom \<and> p_cur st \<noteq> []
      | InClass neg rs pend \<Rightarrow> True
      | _ \<Rightarrow> False)"

section \<open>Code units and literals\<close>

lemma of_char_less: "(of_char c :: nat) < 256"
proof -
  have "(of_char c :: nat) mod 256 = of_char c"
    by simp
  then show ?thesis
    by (metis mod_less_divisor zero_less_numeral)
qed

lemma unat_cu: "unat (cu c) = of_char c"
proof -
  have "(of_char c :: nat) < 65536"
    by (rule less_trans[OF of_char_less]) simp
  then show ?thesis
    by (simp add: cu_def unat_of_nat)
qed

lemma cu_eq_iff: "cu a = cu b \<longleftrightarrow> a = b"
proof
  assume "cu a = cu b"
  then have "unat (cu a) = unat (cu b)"
    by simp
  then show "a = b"
    by (simp add: unat_cu)
qed simp

lemma str_eq_iff: "str a = str b \<longleftrightarrow> a = b"
proof -
  have "inj cu"
    by (rule injI) (simp add: cu_eq_iff)
  then show ?thesis
    by (simp add: str_def inj_map_eq_map)
qed

lemma str_simps: "str [] = []" "str (c # cs) = cu c # str cs"
  by (simp_all add: str_def)

section \<open>Properties of the record store operations\<close>

lemma join_loop_False: "join_loop sep R False xs = R @ concat (map (\<lambda>x. sep @ x) xs)"
  by (induction xs arbitrary: R) simp_all

lemma array_join_Nil: "array_join [] sep = []"
  by (simp add: array_join_def)

lemma array_join_Cons: "array_join (x # xs) sep = x @ concat (map (\<lambda>y. sep @ y) xs)"
  by (simp add: array_join_def join_loop_False)

lemma array_join_space: "array_join xs (str '' '') = space_joined xs"
  by (induction xs rule: space_joined.induct) (simp_all add: array_join_Nil array_join_Cons)

lemma filter_map_values:
  "map (\<lambda>(key, v). v) (filter (\<lambda>(key, v). key \<noteq> a \<and> key \<noteq> b) fs) =
     [v. (k, v) \<leftarrow> fs, k \<noteq> a, k \<noteq> b]"
  by (induction fs) auto

lemma storeRecord_appends:
  "storeRecord t i cert now records =
     records @ [\<lparr>txid = t, outputIndex = i, certificate = cert, createdAt = now,
                 searchableAttributes = space_joined (textual_values cert)\<rparr>]"
  by (simp add: storeRecord_def insertOne_def array_join_space filter_map_values
      textual_values_def)

text \<open>
  C8: for every certificate, \<^verbatim>\<open>storeRecord\<close> adds one record that carries the given txid,
  output index and certificate unchanged, and whose searchable text is the space-joined
  values of the certificate's fields other than \<^verbatim>\<open>profilePhoto\<close> and \<^verbatim>\<open>icon\<close>.
\<close>

theorem storeRecord_stored:
  "storeRecord t i cert now records =
     records @ [\<lparr>txid = t, outputIndex = i, certificate = cert, createdAt = now,
                 searchableAttributes = space_joined (textual_values cert)\<rparr>]"
  by (simp add: storeRecord_def insertOne_def array_join_space filter_map_values
      textual_values_def)

lemma satisfies_Nil: "satisfies [] = (\<lambda>r. True)"
  by (simp add: satisfies_def fun_eq_iff)

lemma satisfies_Cons: "satisfies ((p, c) # q) = (\<lambda>r. holds c (lookup p r) \<and> satisfies q r)"
  by (simp add: satisfies_def fun_eq_iff)

lemma holds_simps:
  "holds (Equals t) (Some s) \<longleftrightarrow> s = t"
  "holds (In (Some ts)) (Some s) \<longleftrightarrow> s \<in> set ts"
  "holds (In None) v \<longleftrightarrow> False"
  "holds (Matches re) (Some s) \<longleftrightarrow> RegExp_test re s"
  "holds c None \<longleftrightarrow> False"
  by (simp_all add: holds_def split: option.splits)

lemma lookup_simps:
  "lookup Subject r = Some (subject (certificate r))"
  "lookup Certifier r = Some (certifier (certificate r))"
  "lookup CertType r = Some (cert_type (certificate r))"
  "lookup SerialNumber r = Some (serialNumber (certificate r))"
  "lookup SearchableAttributes r = Some (searchableAttributes r)"
  "lookup (Field k) r =
     (if cu CHR ''.'' \<in> set k then None else map_of (fields' (certificate r)) k)"
  by (simp_all add: lookup_def)

lemmas query_simps = satisfies_Nil satisfies_Cons holds_simps lookup_simps

lemma findRecordWithQuery_eq:
  "findRecordWithQuery q records = (Inr (map reference_of (filter (satisfies q) records)), records)"
  by (simp add: findRecordWithQuery_def find_def reference_of_def[abs_def])

lemma findByIdentityKey_eq:
  "findByIdentityKey (Some k) certifiers records =
     (Inr (map reference_of
            (filter (\<lambda>r. subject (certificate r) = k \<and>
                        (case certifiers of
                           Some (c # cs) \<Rightarrow> certifier (certificate r) \<in> set (c # cs)
                         | _ \<Rightarrow> True))
               records)), records)"
  by (cases certifiers; cases "the certifiers")
     (simp_all add: findByIdentityKey_def findRecordWithQuery_eq query_simps)

text \<open>
  C6, as amended: for an undefined identity key \<^verbatim>\<open>findByIdentityKey\<close> returns the empty list
  whatever the certifiers and the collection are; for every other key, the empty string
  included, it returns the references of the records whose subject is the key (and whose
  certifier is among the certifiers when a non-empty list is given).
\<close>

theorem findByIdentityKey_cases:
  "findByIdentityKey None certifiers records = (Inr [], records) \<and>
   findByIdentityKey (Some []) certifiers records =
     (Inr (map reference_of
            (filter (\<lambda>r. subject (certificate r) = [] \<and>
                        (case certifiers of
                           Some (c # cs) \<Rightarrow> certifier (certificate r) \<in> set (c # cs)
                         | _ \<Rightarrow> True))
               records)), records) \<and>
   findByIdentityKey (Some k) certifiers records =
     (Inr (map reference_of
            (filter (\<lambda>r. subject (certificate r) = k \<and>
                        (case certifiers of
                           Some (c # cs) \<Rightarrow> certifier (certificate r) \<in> set (c # cs)
                         | _ \<Rightarrow> True))
               records)), records)"
  by (simp add: findByIdentityKey_eq) (simp add: findByIdentityKey_def)

text \<open>
  C6, as stated, fails: with a record whose subject is the empty string in the collection,
  the empty identity key finds it.
\<close>

theorem findByIdentityKey_empty_key_counterexample:
  "fst (findByIdentityKey (Some []) None storeB) = Inr [\<lparr>txid = str ''t2'', outputIndex = 1\<rparr>]"
  by (simp add: findByIdentityKey_eq storeB_def storeA_def storeRecord_appends certA_def
      certB_def reference_of_def str_simps)

text \<open>
  C5, as amended: \<^verbatim>\<open>findByCertificateType\<close> returns the empty list when the certificate
  types or the certifiers are undefined or empty or the identity key is undefined; otherwise
  (the empty identity key included) it returns exactly the references of the records whose
  subject is the identity key, whose certifier is among the certifiers and whose type is
  among the certificate types.
\<close>

theorem findByCertificateType_cases:
  "findByCertificateType certificateTypes identityKey certifiers records =
     (case (certificateTypes, identityKey, certifiers) of
        (Some (t # ts), Some k, Some (c # cs)) \<Rightarrow>
          (Inr (map reference_of
                 (filter (\<lambda>r. subject (certificate r) = k \<and>
                             certifier (certificate r) \<in> set (c # cs) \<and>
                             cert_type (certificate r) \<in> set (t # ts))
                    records)), records)
      | _ \<Rightarrow> (Inr [], records))"
  by (simp add: findByCertificateType_def findRecordWithQuery_eq query_simps
        split: option.splits list.splits)

text \<open>
  C5, as stated, fails: the empty identity key is not rejected, and the record whose
  subject is the empty string is found.
\<close>

theorem findByCertificateType_empty_key_counterexample:
  "fst (findByCertificateType (Some [str ''typeA'']) (Some []) (Some [str ''cert1'']) storeB) =
     Inr [\<lparr>txid = str ''t2'', outputIndex = 1\<rparr>]"
  by (simp add: findByCertificateType_def findRecordWithQuery_eq query_simps storeB_def
      storeA_def storeRecord_appends certA_def certB_def reference_of_def str_simps)

text \<open>
  C7: after \<^verbatim>\<open>storeRecord\<close> of a certificate under a reference that no stored record has,
  \<^verbatim>\<open>findByIdentityKey\<close> with the certificate's subject and a certifier list that holds the
  certificate's certifier returns a list in which that reference occurs exactly once.
\<close>

theorem store_then_find:
  assumes "\<forall>r \<in> set records. reference_of r \<noteq> \<lparr>txid = t, outputIndex = i\<rparr>"
    and "certifier cert \<in> set certifiers"
  shows "\<exists>refs. findByIdentityKey (Some (subject cert)) (Some certifiers)
                  (storeRecord t i cert now records)
                = (Inr refs, storeRecord t i cert now records) \<and>
               count_list refs \<lparr>txid = t, outputIndex = i\<rparr> = 1"
proof -
  let ?new = "\<lparr>txid = t, outputIndex = i, certificate = cert, createdAt = now,
                 searchableAttributes = space_joined (textual_values cert)\<rparr>"
  let ?P = "\<lambda>r. subject (certificate r) = subject cert \<and>
                        (case Some certifiers of
                           Some (c # cs) \<Rightarrow> certifier (certificate r) \<in> set (c # cs)
                         | _ \<Rightarrow> True)"
  have old: "count_list (map reference_of (filter Q records)) \<lparr>txid = t, outputIndex = i\<rparr> = 0"
    for Q
    using assms(1) by (auto simp: count_list_0_iff)
  have new: "?P ?new"
    using assms(2) by (cases certifiers) auto
  have "count_list (map reference_of (filter ?P (records @ [?new])))
          \<lparr>txid = t, outputIndex = i\<rparr> = 1"
    using old[of ?P] new by (simp add: reference_of_def)
  then show ?thesis
    using findByIdentityKey_eq[of "subject cert" "Some certifiers" "records @ [?new]"]
    by (simp add: storeRecord_appends)
qed

text \<open>
  An instance of C7: certificate A stored under a new reference in a collection of two
  records, one of them with the subject of A.
\<close>

theorem store_then_find_witness:
  "\<exists>refs. findByIdentityKey (Some (subject certA)) (Some [str ''cert1'', str ''cert2''])
            (storeRecord (str ''t3'') 2 certA 9 storeB)
          = (Inr refs, storeRecord (str ''t3'') 2 certA 9 storeB) \<and>
          count_list refs \<lparr>txid = str ''t3'', outputIndex = 2\<rparr> = 1"
  by (rule store_then_find)
     (simp_all add: storeB_def storeA_def storeRecord_appends certA_def reference_of_def)

section \<open>The pattern of an input without escaped characters\<close>

lemma escapedInput_literal: "\<forall>c\<in>set s. \<not> escaped_class c \<Longrightarrow> escapedInput s = s"
  by (induction s) (simp_all add: escapedInput_def)

lemma pattern_literal:
  "array_join (split_chars (c # cs)) (str ''.*'') = c # concat (map (\<lambda>d. str ''.*'' @ [d]) cs)"
  by (simp add: split_chars_def array_join_Cons comp_def)

subsection \<open>Parsing the joined pattern\<close>

lemma step_literal:
  "\<not> escaped_class c \<Longrightarrow> P \<noteq> AtomBrace \<Longrightarrow>
   step \<lparr>p_stack = S, p_alts = A, p_cur = C, p_prev = P, p_mode = Normal\<rparr> c =
     Inr \<lparr>p_stack = S, p_alts = A, p_cur = Chr c # C, p_prev = Atom, p_mode = Normal\<rparr>"
  by (auto simp: step_def normal_step_def push_atom_def escaped_class_def backslash_def
      str_simps cu_eq_iff)

lemma step_dot:
  "step \<lparr>p_stack = S, p_alts = A, p_cur = C, p_prev = P, p_mode = Normal\<rparr> (cu CHR ''.'') =
     Inr \<lparr>p_stack = S, p_alts = A, p_cur = AnyChar # C, p_prev = Atom, p_mode = Normal\<rparr>"
  by (simp add: step_def normal_step_def push_atom_def backslash_def cu_eq_iff)

lemma step_star:
  "step \<lparr>p_stack = S, p_alts = A, p_cur = t # C, p_prev = Atom, p_mode = Normal\<rparr> (cu CHR ''*'') =
     Inr \<lparr>p_stack = S, p_alts = A, p_cur = Quant QStar True t # C, p_prev = Greedy,
          p_mode = Normal\<rparr>"
  by (simp add: step_def normal_step_def quantify_def apply_quantifier_def backslash_def
      cu_eq_iff)

lemma parse_gaps:
  "\<forall>d\<in>set cs. \<not> escaped_class d \<Longrightarrow> P \<noteq> AtomBrace \<Longrightarrow>
   parse_from \<lparr>p_stack = S, p_alts = A, p_cur = C, p_prev = P, p_mode = Normal\<rparr>
       (concat (map (\<lambda>d. str ''.*'' @ [d]) cs)) =
     Inr \<lparr>p_stack = S, p_alts = A,
          p_cur = rev (concat (map (\<lambda>d. [wildcard, Chr d]) cs)) @ C,
          p_prev = (if cs = [] then P else Atom), p_mode = Normal\<rparr>"
proof (induction cs arbitrary: C P)
  case Nil
  then show ?case by simp
next
  case (Cons d ds)
  have "parse_from \<lparr>p_stack = S, p_alts = A, p_cur = C, p_prev = P, p_mode = Normal\<rparr>
          (concat (map (\<lambda>d. str ''.*'' @ [d]) (d # ds))) =
        parse_from \<lparr>p_stack = S, p_alts = A, p_cur = Chr d # wildcard # C, p_prev = Atom,
          p_mode = Normal\<rparr> (concat (map (\<lambda>d. str ''.*'' @ [d]) ds))"
    using Cons.prems by (simp add: step_dot step_star step_literal wildcard_def str_simps)
  also have "\<dots> = Inr \<lparr>p_stack = S, p_alts = A,
          p_cur = rev (concat (map (\<lambda>d. [wildcard, Chr d]) ds)) @ Chr d # wildcard # C,
          p_prev = Atom, p_mode = Normal\<rparr>"
    using Cons.prems by (subst Cons.IH) simp_all
  finally show ?case by simp
qed

lemma foldr_gapped: "foldr Seq (concat (map (\<lambda>d. [wildcard, Chr d]) cs)) Empty = gapped cs"
  by (induction cs) simp_all

lemma parsePattern_literal:
  assumes "\<forall>c\<in>set s. \<not> escaped_class c"
  shows "parsePattern (array_join (split_chars s) (str ''.*'')) = Inr (fuzzy_regex s)"
proof (cases s)
  case Nil
  then show ?thesis
    by (simp add: split_chars_def array_join_Nil parsePattern_def finish_def initial_def
        disjunction_def alternative_def)
next
  case (Cons c cs)
  have "parse_from initial (c # concat (map (\<lambda>d. str ''.*'' @ [d]) cs)) =
        Inr \<lparr>p_stack = [], p_alts = [],
          p_cur = rev (concat (map (\<lambda>d. [wildcard, Chr d]) cs)) @ [Chr c],
          p_prev = Atom, p_mode = Normal\<rparr>"
    using assms Cons parse_gaps[of cs Atom "[]" "[]" "[Chr c]"]
    by (simp add: initial_def step_literal)
  then show ?thesis
    using Cons
    by (simp add: pattern_literal parsePattern_def finish_def disjunction_def alternative_def
        foldr_gapped)
qed

lemma getFuzzyRegex_literal:
  assumes "\<forall>c\<in>set s. \<not> escaped_class c"
  shows "getFuzzyRegex U s = Inr \<lparr>matcher = fuzzy_regex s, ignoreCase = True, caseTable = U\<rparr>"
  using assms
  by (simp add: getFuzzyRegex_def RegExp_new_def escapedInput_literal parsePattern_literal)

subsection \<open>Matching the compiled pattern\<close>

lemma star_from_end: "star_from f n (b, []) = [(b, [])]"
  by (cases n) simp_all

lemma ends_wildcard_Nil: "ends wildcard U ic (b, []) = [(b, [])]"
  by (simp add: wildcard_def)

lemma ends_wildcard_Cons:
  "ends wildcard U ic (b, x # xs) =
     (b, x # xs) # (if LineTerminator x then [] else ends wildcard U ic (False, xs))"
  by (simp add: wildcard_def)

lemma ends_gapped:
  "ends (gapped cs) U True (b, u) \<noteq> [] \<longleftrightarrow> gap_match U cs u"
proof (induction cs arbitrary: b u)
  case Nil
  then show ?case by simp
next
  case (Cons d ds)
  show ?case
  proof (induction u arbitrary: b)
    case Nil
    then show ?case by (simp add: ends_wildcard_Nil)
  next
    case (Cons x xs)
    have tail: "ends (gapped (d # ds)) U True (False, xs) \<noteq> [] \<longleftrightarrow> gap_match U (d # ds) xs"
      by (rule Cons.IH)
    have here: "ends (gapped ds) U True (False, xs) \<noteq> [] \<longleftrightarrow> gap_match U ds xs"
      by (rule \<open>\<And>u b. ends (gapped ds) U True (b, u) \<noteq> [] \<longleftrightarrow> gap_match U ds u\<close>)
    show ?case
      using tail here by (auto simp: ends_wildcard_Cons same_letter_def)
  qed
qed

lemma ends_fuzzy_regex:
  "ends (fuzzy_regex s) U True (b, u) \<noteq> [] \<longleftrightarrow> anchored U s u"
  by (cases s; cases u) (auto simp: ends_gapped same_letter_def)

lemma search_fuzzy_regex: "search (fuzzy_regex s) U True b t \<longleftrightarrow> fuzzy_match U s t"
  by (induction t arbitrary: b) (simp_all add: ends_fuzzy_regex)

lemma fuzzy_exact:
  assumes "\<forall>c\<in>set s. \<not> escaped_class c"
  shows "\<exists>re. getFuzzyRegex U s = Inr re \<and> RegExp_test re t = fuzzy_match U s t"
  using assms by (simp add: getFuzzyRegex_literal RegExp_test_def search_fuzzy_regex)

subsection \<open>The fuzzy subsequence rule\<close>

lemma same_letter_sym: "same_letter U a b \<longleftrightarrow> same_letter U b a"
  by (auto simp: same_letter_def)

lemma anchored_gap_match: "anchored U s u \<Longrightarrow> gap_match U s u"
  by (cases s; cases u) simp_all

lemma gap_match_append: "gap_match U cs u \<Longrightarrow> gap_match U cs (u @ post)"
  by (induction U cs u rule: gap_match.induct) auto

lemma anchored_append: "anchored U s u \<Longrightarrow> anchored U s (u @ post)"
  by (cases s; cases u) (simp_all add: gap_match_append)

lemma gap_match_skip:
  "\<forall>x\<in>set g. \<not> LineTerminator x \<Longrightarrow> gap_match U cs u \<Longrightarrow> gap_match U cs (g @ u)"
  by (induction g) (cases cs; simp)+

lemma gap_match_same: "list_all2 (same_letter U) s' s \<Longrightarrow> gap_match U s s'"
  by (induction rule: list_all2_induct) simp_all

lemma anchored_same: "list_all2 (same_letter U) s' s \<Longrightarrow> anchored U s s'"
  by (cases s'; cases s) (simp_all add: gap_match_same)

lemma anchored_insert_between:
  "list_all2 (same_letter U) s' s \<Longrightarrow> \<forall>g\<in>set gaps. \<forall>x\<in>set g. \<not> LineTerminator x \<Longrightarrow>
   anchored U s (insert_between s' gaps)"
proof (induction s' gaps arbitrary: s rule: insert_between.induct)
  case (1 c d cs g gs)
  then obtain a b as where s: "s = a # b # as" and ca: "same_letter U c a"
    and rest: "list_all2 (same_letter U) (d # cs) (b # as)"
    by (auto simp: list_all2_Cons1)
  have "anchored U (b # as) (insert_between (d # cs) gs)"
    using "1.IH"[OF rest] "1.prems"(2) by simp
  then have "gap_match U (b # as) (g @ insert_between (d # cs) gs)"
    using "1.prems"(2) by (intro gap_match_skip anchored_gap_match) simp_all
  then show ?case
    using s ca by simp
qed (simp_all add: anchored_same)

lemma fuzzy_match_anchored: "anchored U s u \<Longrightarrow> fuzzy_match U s u"
  by (cases u) simp_all

lemma fuzzy_match_prepend: "fuzzy_match U s u \<Longrightarrow> fuzzy_match U s (pre @ u)"
  by (induction pre) simp_all

lemma fuzzy_match_inserted:
  assumes "list_all2 (same_letter U) s' s" and "\<forall>g\<in>set gaps. \<forall>x\<in>set g. \<not> LineTerminator x"
  shows "fuzzy_match U s (pre @ insert_between s' gaps @ post)"
  by (intro fuzzy_match_prepend fuzzy_match_anchored anchored_append
      anchored_insert_between assms)

lemma in_order_skip: "in_order U cs xs \<Longrightarrow> in_order U cs (x # xs) \<and> in_order U (tl cs) xs"
proof (induction xs arbitrary: cs x)
  case Nil
  then show ?case by (cases cs) simp_all
next
  case step: (Cons y ys)
  show ?case
  proof (cases cs)
    case Nil
    then show ?thesis by simp
  next
    case query: (Cons c cs')
    have "in_order U cs' ys"
      using step.prems step.IH[of "c # cs'"] query by (simp split: if_splits)
    then have "in_order U cs' (y # ys)"
      using step.IH[of cs'] by simp
    then show ?thesis
      using step.prems query by simp
  qed
qed

lemma gap_match_in_order: "gap_match U cs u \<Longrightarrow> in_order U cs u"
proof (induction U cs u rule: gap_match.induct)
  case (3 U d ds x xs)
  then show ?case
    using in_order_skip[of U "d # ds" xs x] in_order_skip[of U ds xs x]
    by (auto simp: same_letter_sym[of U d x])
qed simp_all

lemma anchored_in_order: "anchored U s u \<Longrightarrow> in_order U s u"
  by (rule gap_match_in_order) (rule anchored_gap_match)

lemma fuzzy_match_in_order: "fuzzy_match U s t \<Longrightarrow> in_order U s t"
proof (induction t)
  case Nil
  then show ?case by (simp add: anchored_in_order)
next
  case (Cons x xs)
  then show ?case
    using anchored_in_order[of U s "x # xs"] in_order_skip[of U s xs x] by auto
qed

lemma in_order_list_emb: "in_order U s t \<longleftrightarrow> list_emb (same_letter U) s t"
proof
  show "in_order U s t \<Longrightarrow> list_emb (same_letter U) s t"
    by (induction U s t rule: in_order.induct) (auto split: if_splits)
next
  show "list_emb (same_letter U) s t \<Longrightarrow> in_order U s t"
    by (induction rule: list_emb.induct) (auto dest: in_order_skip)
qed

section \<open>The joined pattern stays within the modelled syntax\<close>

lemmas step_defs = step_def normal_step_def class_step_def class_atom_def class_close_def
  quantify_def apply_quantifier_def make_lazy_def push_atom_def

lemma quantify_stable:
  "p_prev st \<noteq> GroupOpened \<Longrightarrow> quantify q st \<noteq> Inl NotModelled"
  by (cases "p_prev st")
     (auto simp: quantify_def apply_quantifier_def make_lazy_def
        split: list.splits regex.splits)

lemma class_atom_decided: "class_atom neg rs pend a st \<noteq> Inl NotModelled"
  by (cases pend) (simp_all add: class_atom_def)

lemma class_step_decided: "class_step neg rs pend x st \<noteq> Inl NotModelled"
  by (cases pend) (simp_all add: class_step_def class_atom_decided)

lemma normal_step_stable:
  "p_prev st \<noteq> GroupOpened \<Longrightarrow> p_prev st \<noteq> AtomBrace \<Longrightarrow>
   normal_step c st \<noteq> Inl NotModelled"
  by (simp add: normal_step_def quantify_stable split: list.splits)

lemma step_stable: "stable st \<Longrightarrow> step st c \<noteq> Inl NotModelled"
  by (cases "p_mode st")
     (simp_all add: stable_def step_def normal_step_stable class_step_decided)

lemma step_dot_any: "step st (cu CHR ''.'') \<noteq> Inl NotModelled"
  by (auto simp: step_defs SyntaxCharacter_def backslash_def cu_eq_iff str_simps
      split: pmode.splits cpend.splits)

lemma step_dot_after: "step st (cu CHR ''.'') = Inr st' \<Longrightarrow> after_dot st'"
  by (auto simp: step_defs after_dot_def SyntaxCharacter_def backslash_def cu_eq_iff str_simps
      split: pmode.splits cpend.splits if_splits)

lemma step_star_after:
  "after_dot st \<Longrightarrow> step st (cu CHR ''*'') \<noteq> Inl NotModelled \<and> (\<forall>st'. step st (cu CHR ''*'') = Inr st' \<longrightarrow> stable st')"
  by (auto simp: step_defs after_dot_def stable_def backslash_def cu_eq_iff
      split: pmode.splits cpend.splits if_splits list.splits)

lemma parse_joined_decided:
  "parse_from st (concat (map (\<lambda>d. str ''.*'' @ [d]) es)) \<noteq> Inl NotModelled"
proof (induction es arbitrary: st)
  case Nil
  then show ?case by simp
next
  case (Cons d ds)
  show ?case
  proof (cases "step st (cu CHR ''.'')")
    case (Inl e)
    then show ?thesis using step_dot_any[of st] by (simp add: str_simps)
  next
    case st1: (Inr st1)
    then have a: "after_dot st1" by (rule step_dot_after)
    show ?thesis
    proof (cases "step st1 (cu CHR ''*'')")
      case (Inl e)
      then show ?thesis using st1 step_star_after[OF a] by (simp add: str_simps)
    next
      case st2: (Inr st2)
      then have s: "stable st2" using step_star_after[OF a] by simp
      show ?thesis
      proof (cases "step st2 d")
        case (Inl e)
        then show ?thesis using st1 st2 step_stable[OF s, of d] by (simp add: str_simps)
      next
        case (Inr st3)
        then show ?thesis using st1 st2 Cons.IH[of st3] by (simp add: str_simps)
      qed
    qed
  qed
qed

lemma parsePattern_joined_decided:
  "parsePattern (array_join (split_chars e) (str ''.*'')) \<noteq> Inl NotModelled"
proof (cases e)
  case Nil
  then show ?thesis
    by (simp add: split_chars_def array_join_def parsePattern_def finish_def initial_def)
next
  case (Cons c cs)
  have pat: "array_join (split_chars (c # cs)) (str ''.*'') =
               c # concat (map (\<lambda>d. str ''.*'' @ [d]) cs)"
    by (simp add: split_chars_def array_join_def join_loop_False comp_def)
  have "stable initial"
    by (simp add: stable_def initial_def)
  then have "step initial c \<noteq> Inl NotModelled"
    by (rule step_stable)
  then show ?thesis
    using parse_joined_decided[of _ cs] unfolding Cons pat
    by (auto simp: parsePattern_def finish_def split: sum.splits)
qed

lemma getFuzzyRegex_decided: "getFuzzyRegex U s \<noteq> Inl NotModelled"
  using parsePattern_joined_decided[of "escapedInput s"]
  by (auto simp: getFuzzyRegex_def RegExp_new_def split: sum.splits)


section \<open>Properties of the fuzzy pattern and of the query methods\<close>

lemma RegExp_test_fuzzy:
  "RegExp_test \<lparr>matcher = fuzzy_regex s, ignoreCase = True, caseTable = U\<rparr> u \<longleftrightarrow>
     fuzzy_match U s u"
  by (simp add: RegExp_test_def search_fuzzy_regex)

lemma literal_examples:
  "\<forall>c\<in>set (str ''ace''). \<not> escaped_class c"
  "\<forall>c\<in>set (str ''ab''). \<not> escaped_class c"
  "\<forall>c\<in>set (str ''ali''). \<not> escaped_class c"
  "\<forall>c\<in>set (str ''alcSm''). \<not> escaped_class c"
  by (simp_all add: escaped_class_def backslash_def str_simps cu_eq_iff)

text \<open>
  C3, as amended: for every string \<open>s\<close> without characters of the escaped class,
  \<^verbatim>\<open>getFuzzyRegex\<close> returns a pattern; the pattern matches every target obtained from \<open>s\<close>
  (up to the case of its code units) by inserting code units other than the four line
  terminators between its code units, and arbitrary code units before and after; it
  matches no target in which the code units of \<open>s\<close> do not occur in order up to case
  (\<open>list_emb\<close> is the embedding of one list in another). Exactly, it matches the targets
  that \<open>fuzzy_match\<close> accepts. This holds for every case table of the host.
\<close>

theorem fuzzy_pattern_literal:
  assumes "\<forall>c\<in>set s. \<not> escaped_class c"
  shows "\<exists>re. getFuzzyRegex U s = Inr re \<and>
           (RegExp_test re t \<longleftrightarrow> fuzzy_match U s t) \<and>
           (list_all2 (same_letter U) s' s \<and> (\<forall>g\<in>set gaps. \<forall>x\<in>set g. \<not> LineTerminator x)
              \<longrightarrow> RegExp_test re (pre @ insert_between s' gaps @ post)) \<and>
           (\<not> list_emb (same_letter U) s t \<longrightarrow> \<not> RegExp_test re t)"
proof -
  let ?re = "\<lparr>matcher = fuzzy_regex s, ignoreCase = True, caseTable = U\<rparr>"
  have re: "getFuzzyRegex U s = Inr ?re"
    using assms by (rule getFuzzyRegex_literal)
  have test: "RegExp_test ?re u \<longleftrightarrow> fuzzy_match U s u" for u
    by (rule RegExp_test_fuzzy)
  show ?thesis
    using re test fuzzy_match_inserted[of U s' s gaps pre post] fuzzy_match_in_order[of U s t]
    by (auto simp: in_order_list_emb)
qed

lemma ace_examples:
  "list_all2 (same_letter U) (str ''AcE'') (str ''ace'')"
  "\<forall>g\<in>set [str ''b'', str ''d'']. \<forall>x\<in>set g. \<not> LineTerminator x"
  "insert_between (str ''AcE'') [str ''b'', str ''d''] = str ''AbcdE''"
  "\<not> in_order U (str ''ace'') (str ''aec'')"
  by code_simp+

text \<open>
  The example of C3, for every case table: the pattern from \<^verbatim>\<open>ace\<close> matches \<^verbatim>\<open>AbcdE\<close>
  and does not match \<^verbatim>\<open>aec\<close>.
\<close>

theorem fuzzy_pattern_literal_witness:
  "\<forall>U. \<exists>re. getFuzzyRegex U (str ''ace'') = Inr re \<and> RegExp_test re (str ''AbcdE'') \<and>
          \<not> RegExp_test re (str ''aec'')"
proof
  fix U
  obtain re where re: "getFuzzyRegex U (str ''ace'') = Inr re"
    and ins: "list_all2 (same_letter U) (str ''AcE'') (str ''ace'') \<and>
                (\<forall>g\<in>set [str ''b'', str ''d'']. \<forall>x\<in>set g. \<not> LineTerminator x)
              \<longrightarrow> RegExp_test re ([] @ insert_between (str ''AcE'') [str ''b'', str ''d''] @ [])"
    and ord: "\<not> list_emb (same_letter U) (str ''ace'') (str ''aec'')
              \<longrightarrow> \<not> RegExp_test re (str ''aec'')"
    using fuzzy_pattern_literal[OF literal_examples(1), where U = U and t = "str ''aec''"
        and s' = "str ''AcE''" and gaps = "[str ''b'', str ''d'']" and pre = "[]" and post = "[]"]
    by blast
  have "RegExp_test re (str ''AbcdE'')"
    using ins ace_examples(1)[of U] ace_examples(2) by (simp add: ace_examples(3))
  moreover have "\<not> RegExp_test re (str ''aec'')"
    using ord ace_examples(4)[of U] by (simp add: in_order_list_emb)
  ultimately show "\<exists>re. getFuzzyRegex U (str ''ace'') = Inr re \<and> RegExp_test re (str ''AbcdE'') \<and>
          \<not> RegExp_test re (str ''aec'')"
    using re by blast
qed

lemma Canonicalize_ascii: "Canonicalize U ic ch < 128 \<longleftrightarrow> ch < 128"
proof (cases "ch < 128")
  case True
  have "ch - 32 < 128" if "97 \<le> ch"
  proof -
    have "(32 :: code_unit) \<le> ch"
      using that by (rule order_trans[rotated]) simp
    then have "ch - 32 \<le> ch"
      by (rule word_sub_le)
    then show ?thesis
      using True by (rule order.strict_trans1)
  qed
  then show ?thesis
    using True by (simp add: Canonicalize_def)
next
  case False
  then show ?thesis
    by (auto simp: Canonicalize_def split: list.splits)
qed

lemma same_letter_ascii: "same_letter U a b \<Longrightarrow> a < 128 \<longleftrightarrow> b < 128"
  using Canonicalize_ascii[of U True a] Canonicalize_ascii[of U True b]
  by (simp add: same_letter_def)

lemma newline_examples:
  "\<not> fuzzy_match U (str ''ab'') (insert_between (str ''ab'') [[0x000A]])"
  "\<not> fuzzy_match U (str ''ab'') (insert_between (str ''ab'') [[0x2028]])"
proof -
  show "\<not> fuzzy_match U (str ''ab'') (insert_between (str ''ab'') [[0x000A]])"
    by code_simp
  have "\<not> same_letter U 0x2028 (cu CHR ''a'')" "\<not> same_letter U 0x2028 (cu CHR ''b'')"
    using same_letter_ascii[of U "0x2028" "cu CHR ''a''"]
      same_letter_ascii[of U "0x2028" "cu CHR ''b''"]
    by (auto simp: cu_def)
  moreover have "\<not> same_letter U (cu CHR ''b'') (cu CHR ''a'')"
    by code_simp
  ultimately show "\<not> fuzzy_match U (str ''ab'') (insert_between (str ''ab'') [[0x2028]])"
    by (simp add: str_simps LineTerminator_def)
qed

text \<open>
  C3, as stated, fails: a line feed inserted between the two code units of \<^verbatim>\<open>ab\<close> gives
  a target that the pattern does not match, whatever the case table is.
\<close>

theorem fuzzy_pattern_newline_counterexample:
  "\<forall>U. \<exists>re. getFuzzyRegex U (str ''ab'') = Inr re \<and>
          \<not> RegExp_test re (insert_between (str ''ab'') [[0x000A]])"
proof
  fix U
  have "getFuzzyRegex U (str ''ab'') =
          Inr \<lparr>matcher = fuzzy_regex (str ''ab''), ignoreCase = True, caseTable = U\<rparr>"
    by (rule getFuzzyRegex_literal) (rule literal_examples)
  moreover have "\<not> fuzzy_match U (str ''ab'') (insert_between (str ''ab'') [[0x000A]])"
    by (rule newline_examples)
  ultimately show "\<exists>re. getFuzzyRegex U (str ''ab'') = Inr re \<and>
          \<not> RegExp_test re (insert_between (str ''ab'') [[0x000A]])"
    unfolding RegExp_test_fuzzy[symmetric] by blast
qed

lemma line_separator_example:
  "\<exists>re. getFuzzyRegex U (str ''ab'') = Inr re \<and>
        \<not> RegExp_test re (insert_between (str ''ab'') [[0x2028]])"
  using getFuzzyRegex_literal[OF literal_examples(2), of U] newline_examples(2)[of U]
  by (simp add: RegExp_test_fuzzy)

text \<open>
  C1 fails on the code: for the input \<^verbatim>\<open>a.*b\<close> the joined pattern is
  \<^verbatim>\<open>a.*\.*..*\.**.*b\<close>, in which a quantifier follows a quantifier, and \<^verbatim>\<open>new RegExp\<close>
  throws; for the input \<^verbatim>\<open>a.b\<close> the pattern is \<^verbatim>\<open>a.*\.*..*b\<close>, which matches
  \<^verbatim>\<open>axb\<close>, a target without a dot.
\<close>

theorem getFuzzyRegex_metacharacters:
  "array_join (split_chars (escapedInput (str ''a.*b''))) (str ''.*'') =
     str ''a.*'' @ [backslash] @ str ''.*..*'' @ [backslash] @ str ''.**.*b'' \<and>
   getFuzzyRegex U (str ''a.*b'') = Inl SyntaxError \<and>
   array_join (split_chars (escapedInput (str ''a.b''))) (str ''.*'') =
     str ''a.*'' @ [backslash] @ str ''.*..*b'' \<and>
   map_sum id (\<lambda>re. RegExp_test re (str ''axb'')) (getFuzzyRegex U (str ''a.b'')) = Inr True"
  by code_simp

lemma getFuzzyRegex_star: "getFuzzyRegex U (str ''*'') = Inl SyntaxError"
  by code_simp

text \<open>
  C4 fails on the code: with the attributes \<^verbatim>\<open>{any: "*"}\<close> and undefined certifiers the
  call throws a \<^verbatim>\<open>SyntaxError\<close> and returns no result.
\<close>

theorem findByAttribute_any_star:
  "findByAttribute U (Some [(str ''any'', str ''*'')]) None records = (Inl SyntaxError, records)"
  by (simp add: findByAttribute_def attributeQuery_def getFuzzyRegex_star)

lemma attributeQuery_certifier_first:
  "attributeQuery U attributes certifiers = Inr q \<Longrightarrow> \<exists>cs. q = (Certifier, In certifiers) # cs"
  by (auto simp: attributeQuery_def Let_def split: option.splits sum.splits)

lemma findByAttribute_no_certifiers:
  "attributeQuery U attributes None = Inr q \<Longrightarrow> attributes \<noteq> [] \<Longrightarrow>
   findByAttribute U (Some attributes) None records = (Inr [], records)"
  by (auto simp: findByAttribute_def findRecordWithQuery_eq query_simps
      dest!: attributeQuery_certifier_first)

lemma attributeQueries_literal:
  "\<forall>v\<in>snd ` set attrs. \<forall>c\<in>set v. \<not> escaped_class c \<Longrightarrow> \<exists>cs. attributeQueries U attrs = Inr cs"
  by (induction attrs) (auto simp: getFuzzyRegex_literal)

lemma attributeQuery_literal:
  assumes "\<forall>v\<in>snd ` set attrs. \<forall>c\<in>set v. \<not> escaped_class c"
  shows "\<exists>q. attributeQuery U attrs certifiers = Inr q"
proof (cases "map_of attrs (str ''any'')")
  case None
  then show ?thesis
    using attributeQueries_literal[OF assms, of U] by (auto simp: attributeQuery_def)
next
  case (Some v)
  then have "v \<in> snd ` set attrs"
    by (force dest: map_of_SomeD)
  then have "\<forall>c\<in>set v. \<not> escaped_class c"
    using assms by blast
  then show ?thesis
    using Some by (simp add: attributeQuery_def getFuzzyRegex_literal)
qed

lemma findByAttribute_literal:
  assumes "\<forall>v\<in>snd ` set attrs. \<forall>c\<in>set v. \<not> escaped_class c"
  shows "\<exists>refs. findByAttribute U (Some attrs) certifiers records = (Inr refs, records)"
  using attributeQuery_literal[OF assms, of U certifiers]
  by (auto simp: findByAttribute_def findRecordWithQuery_eq)

text \<open>
  C2, as amended: every query method returns the empty list for its missing input
  (undefined or empty attributes; undefined identity key; undefined or empty certifiers;
  undefined or empty certificate types; undefined or empty serial number); the methods
  other than \<^verbatim>\<open>findByAttribute\<close> return a result list on every input, the empty
  identity key included, for which the query is run; and \<^verbatim>\<open>findByAttribute\<close> returns a
  result list whenever no attribute value holds a character of the escaped class.
\<close>

theorem query_methods_total:
  "findByAttribute U None certifiers records = (Inr [], records) \<and>
   findByAttribute U (Some []) certifiers records = (Inr [], records) \<and>
   ((\<forall>v\<in>snd ` set attrs. \<forall>c\<in>set v. \<not> escaped_class c) \<longrightarrow>
      (\<exists>refs. findByAttribute U (Some attrs) certifiers records = (Inr refs, records))) \<and>
   findByIdentityKey None certifiers records = (Inr [], records) \<and>
   (\<exists>refs. findByIdentityKey identityKey certifiers records = (Inr refs, records)) \<and>
   findByCertifier None records = (Inr [], records) \<and>
   findByCertifier (Some []) records = (Inr [], records) \<and>
   (\<exists>refs. findByCertifier certifiers records = (Inr refs, records)) \<and>
   findByCertificateType None identityKey certifiers records = (Inr [], records) \<and>
   findByCertificateType (Some []) identityKey certifiers records = (Inr [], records) \<and>
   findByCertificateType certificateTypes None certifiers records = (Inr [], records) \<and>
   findByCertificateType certificateTypes identityKey None records = (Inr [], records) \<and>
   findByCertificateType certificateTypes identityKey (Some []) records = (Inr [], records) \<and>
   (\<exists>refs. findByCertificateType certificateTypes identityKey certifiers records
            = (Inr refs, records)) \<and>
   findByCertificateSerialNumber None records = (Inr [], records) \<and>
   findByCertificateSerialNumber (Some []) records = (Inr [], records) \<and>
   (\<exists>refs. findByCertificateSerialNumber sn records = (Inr refs, records))"
proof -
  have "\<exists>refs. findByIdentityKey identityKey certifiers records = (Inr refs, records)"
    by (cases identityKey) (simp_all add: findByIdentityKey_def findRecordWithQuery_eq Let_def)
  moreover have "\<exists>refs. findByCertifier certifiers records = (Inr refs, records)"
    by (simp add: findByCertifier_def findRecordWithQuery_eq split: option.splits)
  moreover have "\<exists>refs. findByCertificateType certificateTypes identityKey certifiers records
            = (Inr refs, records)"
    by (simp add: findByCertificateType_def findRecordWithQuery_eq split: option.splits)
  moreover have "\<exists>refs. findByCertificateSerialNumber sn records = (Inr refs, records)"
    by (simp add: findByCertificateSerialNumber_def findRecordWithQuery_eq split: option.splits)
  moreover have "findByCertificateType certificateTypes identityKey None records = (Inr [], records)"
    "findByCertificateType certificateTypes identityKey (Some []) records = (Inr [], records)"
    "findByCertificateType certificateTypes None certifiers records = (Inr [], records)"
    by (simp_all add: findByCertificateType_def split: option.splits)
  ultimately show ?thesis
    using findByAttribute_literal[of attrs U certifiers records]
    by (simp add: findByAttribute_def findByIdentityKey_def findByCertifier_def
        findByCertificateType_def findByCertificateSerialNumber_def)
qed

lemma alcSm_eval:
  "fst (findByAttribute U (Some [(str ''name'', str ''alcSm'')]) (Some [str ''cert1'']) storeA) =
     Inr [\<lparr>txid = str ''t1'', outputIndex = 0\<rparr>]"
  by code_simp

text \<open>
  The scenario of the specification: with record A stored, the attributes
  \<^verbatim>\<open>{name: "alcSm"}\<close> and the certifier \<^verbatim>\<open>cert1\<close> find the reference of A.
\<close>

theorem query_methods_total_witness:
  "\<forall>U. findByAttribute U (Some [(str ''name'', str ''alcSm'')]) (Some [str ''cert1'']) storeA =
     (Inr [\<lparr>txid = str ''t1'', outputIndex = 0\<rparr>], storeA)"
proof
  fix U
  have "\<forall>v\<in>snd ` set [(str ''name'', str ''alcSm'')]. \<forall>c\<in>set v. \<not> escaped_class c"
    using literal_examples(4) by simp
  then have "\<exists>refs. findByAttribute U (Some [(str ''name'', str ''alcSm'')]) (Some [str ''cert1''])
                  storeA = (Inr refs, storeA)"
    using query_methods_total[where attrs = "[(str ''name'', str ''alcSm'')]" and U = U
        and certifiers = "Some [str ''cert1'']" and records = storeA]
    by blast
  then show "findByAttribute U (Some [(str ''name'', str ''alcSm'')]) (Some [str ''cert1'']) storeA =
     (Inr [\<lparr>txid = str ''t1'', outputIndex = 0\<rparr>], storeA)"
    using alcSm_eval[of U] by auto
qed

text \<open>
  C2, as stated, fails: the empty identity key returns a non-empty list when a record has
  the empty subject, and the attribute value \<^verbatim>\<open>*\<close> makes \<^verbatim>\<open>findByAttribute\<close> throw.
\<close>

theorem query_methods_counterexample:
  "\<forall>U. fst (findByIdentityKey (Some []) None storeB) \<noteq> Inr [] \<and>
        fst (findByAttribute U (Some [(str ''any'', str ''*'')]) (Some [str ''cert1'']) storeB) =
          Inl SyntaxError"
proof
  fix U
  have "fst (findByIdentityKey (Some []) None storeB) \<noteq> Inr []"
    by (simp add: findByIdentityKey_eq storeB_def storeA_def storeRecord_appends certA_def
        certB_def reference_of_def str_simps)
  moreover have "fst (findByAttribute U (Some [(str ''any'', str ''*'')]) (Some [str ''cert1''])
                   storeB) = Inl SyntaxError"
    by (simp add: findByAttribute_def attributeQuery_def getFuzzyRegex_star)
  ultimately show "fst (findByIdentityKey (Some []) None storeB) \<noteq> Inr [] \<and>
        fst (findByAttribute U (Some [(str ''any'', str ''*'')]) (Some [str ''cert1'']) storeB) =
          Inl SyntaxError"
    by simp
qed

lemma any_key_alone:
  assumes "map_of attributes (str ''any'') = Some v"
  shows "attributeQuery U attributes certifiers =
           (case getFuzzyRegex U v of
              Inl e \<Rightarrow> Inl e
            | Inr re \<Rightarrow> Inr [(Certifier, In certifiers), (SearchableAttributes, Matches re)]) \<and>
         findByAttribute U (Some attributes) certifiers records =
           findByAttribute U (Some [(str ''any'', v)]) certifiers records"
proof -
  have "attributes \<noteq> []"
    using assms by auto
  then show ?thesis
    using assms by (simp add: findByAttribute_def attributeQuery_def split: sum.splits)
qed

lemma any_ali_eval:
  "findByAttribute U (Some [(str ''email'', str ''bob''), (str ''any'', str ''ali'')])
       (Some [str ''cert1'']) storeB =
     (Inr [\<lparr>txid = str ''t1'', outputIndex = 0\<rparr>], storeB)"
  by code_simp

text \<open>
  C9 fails on the code: with the attributes \<^verbatim>\<open>{any: "*", name: "Alice"}\<close> no pattern
  clause is built; the compilation of the value of \<^verbatim>\<open>any\<close> throws a \<^verbatim>\<open>SyntaxError\<close>,
  which ends the call.
\<close>

theorem attributeQuery_any_throws:
  "attributeQuery U [(str ''any'', str ''*''), (str ''name'', str ''Alice'')] certifiers =
     Inl SyntaxError \<and>
   findByAttribute U (Some [(str ''any'', str ''*''), (str ''name'', str ''Alice'')])
       certifiers records = (Inl SyntaxError, records)"
  by (simp add: findByAttribute_def attributeQuery_def getFuzzyRegex_star)

lemma getFuzzyRegex_error: "getFuzzyRegex U s = Inl e \<Longrightarrow> e = SyntaxError"
  using getFuzzyRegex_decided[of U s] by (cases e) simp_all

lemma attributeQueries_error: "attributeQueries U attrs = Inl e \<Longrightarrow> e = SyntaxError"
  by (induction attrs) (auto split: sum.splits dest: getFuzzyRegex_error)

lemma findByAttribute_error:
  "fst (findByAttribute U attributes certifiers records) = Inl e \<Longrightarrow> e = SyntaxError"
  by (auto simp: findByAttribute_def attributeQuery_def findRecordWithQuery_eq Let_def
      split: option.splits sum.splits if_splits
      dest: getFuzzyRegex_error attributeQueries_error)

subsection \<open>What each find operation returns\<close>

lemma holds_In: "holds (In allowed) (Some x) \<longleftrightarrow> within allowed x"
  by (cases allowed) (simp_all add: within_def holds_simps)

lemma holds_Matches:
  "holds (Matches re) v \<longleftrightarrow> (case v of None \<Rightarrow> False | Some text \<Rightarrow> RegExp_test re text)"
  by (cases v) (simp_all add: holds_simps)

lemma searched_text_field:
  "key \<noteq> str ''any'' \<Longrightarrow> searched_text key r = lookup (Field key) r"
  by (simp add: searched_text_def lookup_simps)

lemma searched_text_any: "searched_text (str ''any'') r = lookup SearchableAttributes r"
  by (simp add: searched_text_def lookup_simps)

lemma attributeQueries_fail:
  "\<not> list_all (\<lambda>entry. compiles U (snd entry)) attrs \<Longrightarrow>
   attributeQueries U attrs = Inl SyntaxError"
proof (induction attrs)
  case Nil
  then show ?case by simp
next
  case (Cons entry rest)
  obtain key v where entry: "entry = (key, v)"
    by (cases entry)
  show ?case
  proof (cases "getFuzzyRegex U v")
    case (Inl e)
    then show ?thesis
      using entry getFuzzyRegex_error[of U v e] by simp
  next
    case (Inr re)
    then have "attributeQueries U rest = Inl SyntaxError"
      using Cons entry by (simp add: compiles_def)
    then show ?thesis
      using entry Inr by simp
  qed
qed

lemma attributeQueries_ok:
  "list_all (\<lambda>entry. compiles U (snd entry)) attrs \<Longrightarrow> str ''any'' \<notin> fst ` set attrs \<Longrightarrow>
   \<exists>cs. attributeQueries U attrs = Inr cs \<and>
        satisfies cs = (\<lambda>r. list_all (\<lambda>entry. entry_holds U entry r) attrs)"
proof (induction attrs)
  case Nil
  then show ?case by (simp add: satisfies_Nil)
next
  case (Cons entry rest)
  obtain key v where entry: "entry = (key, v)"
    by (cases entry)
  obtain re where re: "getFuzzyRegex U v = Inr re"
    using Cons.prems(1) entry by (auto simp: compiles_def split: sum.splits)
  obtain cs where cs: "attributeQueries U rest = Inr cs"
    and sat: "satisfies cs = (\<lambda>r. list_all (\<lambda>entry. entry_holds U entry r) rest)"
    using Cons by auto
  have key: "key \<noteq> str ''any''"
    using Cons.prems(2) entry by auto
  have "satisfies ((Field key, Matches re) # cs) =
          (\<lambda>r. list_all (\<lambda>entry. entry_holds U entry r) (entry # rest))"
    using re key by (simp add: satisfies_Cons sat entry entry_holds_def holds_Matches
        searched_text_field)
  then show ?case
    using entry re cs by simp
qed

lemma consulted_cases:
  "map_of attrs (str ''any'') = None \<Longrightarrow> consulted attrs = attrs"
  "map_of attrs (str ''any'') = Some v \<Longrightarrow> consulted attrs = [(str ''any'', v)]"
  by (simp_all add: consulted_def)

lemma attributeQuery_fail:
  assumes "\<not> list_all (\<lambda>entry. compiles U (snd entry)) (consulted attrs)"
  shows "attributeQuery U attrs certifiers = Inl SyntaxError"
proof (cases "map_of attrs (str ''any'')")
  case None
  then show ?thesis
    using assms attributeQueries_fail[of U attrs]
    by (simp add: consulted_cases attributeQuery_def)
next
  case (Some v)
  then obtain e where "getFuzzyRegex U v = Inl e"
    using assms by (auto simp: consulted_cases compiles_def split: sum.splits)
  then show ?thesis
    using Some getFuzzyRegex_error[of U v e] by (simp add: attributeQuery_def)
qed

lemma attributeQuery_ok:
  assumes "list_all (\<lambda>entry. compiles U (snd entry)) (consulted attrs)"
  shows "\<exists>q. attributeQuery U attrs certifiers = Inr q \<and>
           satisfies q = (\<lambda>r. within certifiers (certifier (certificate r)) \<and>
                              list_all (\<lambda>entry. entry_holds U entry r) (consulted attrs))"
proof (cases "map_of attrs (str ''any'')")
  case None
  then have "str ''any'' \<notin> fst ` set attrs"
    by (simp add: map_of_eq_None_iff)
  then obtain cs where "attributeQueries U attrs = Inr cs"
    and "satisfies cs = (\<lambda>r. list_all (\<lambda>entry. entry_holds U entry r) attrs)"
    using assms None attributeQueries_ok[of U attrs] by (auto simp: consulted_cases)
  then show ?thesis
    using None
    by (simp add: attributeQuery_def consulted_cases satisfies_Cons holds_In lookup_simps)
next
  case (Some v)
  then obtain re where "getFuzzyRegex U v = Inr re"
    using assms by (auto simp: consulted_cases compiles_def split: sum.splits)
  then show ?thesis
    using Some
    by (simp add: attributeQuery_def consulted_cases satisfies_Cons satisfies_Nil holds_In
        holds_Matches lookup_simps entry_holds_def searched_text_any)
qed

lemma findByAttribute_eq:
  "fst (findByAttribute U attributes certifiers records) =
     (case attributes of
        None \<Rightarrow> Inr []
      | Some attrs \<Rightarrow>
          if list_all (\<lambda>entry. compiles U (snd entry)) (consulted attrs)
          then Inr (map reference_of
                 (filter (\<lambda>r. attrs \<noteq> [] \<and> within certifiers (certifier (certificate r)) \<and>
                             list_all (\<lambda>entry. entry_holds U entry r) (consulted attrs))
                    records))
          else Inl SyntaxError)"
proof (cases attributes)
  case None
  then show ?thesis by (simp add: findByAttribute_def)
next
  case (Some attrs)
  show ?thesis
  proof (cases "attrs = []")
    case True
    then show ?thesis
      using Some by (simp add: findByAttribute_def consulted_def)
  next
    case False
    show ?thesis
    proof (cases "list_all (\<lambda>entry. compiles U (snd entry)) (consulted attrs)")
      case True
      then obtain q where "attributeQuery U attrs certifiers = Inr q"
        and "satisfies q = (\<lambda>r. within certifiers (certifier (certificate r)) \<and>
                              list_all (\<lambda>entry. entry_holds U entry r) (consulted attrs))"
        using attributeQuery_ok[of U attrs certifiers] by auto
      then show ?thesis
        using Some False True by (simp add: findByAttribute_def findRecordWithQuery_eq)
    next
      case bad: False
      then show ?thesis
        using Some False attributeQuery_fail[of U attrs certifiers]
        by (simp add: findByAttribute_def)
    qed
  qed
qed

text \<open>
  C10: every find operation leaves the collection as it was, and its result is the list of
  the references of exactly the stored records that match what the operation looks for,
  one per matching record and in the order of the collection, so that a reference stored
  twice is returned twice. The shared query routine returns the references of the records
  that satisfy the query. An operation given a missing input matches no record;
  \<^verbatim>\<open>findByAttribute\<close> returns no list when a consulted value does not compile.
\<close>

theorem find_operations_frame:
  "snd (findByAttribute U attributes certifiers records) = records \<and>
   snd (findByIdentityKey identityKey certifiers records) = records \<and>
   snd (findByCertifier certifiers records) = records \<and>
   snd (findByCertificateType certificateTypes identityKey certifiers records) = records \<and>
   snd (findByCertificateSerialNumber sn records) = records \<and>
   findRecordWithQuery q records =
     (Inr (map reference_of (filter (satisfies q) records)), records) \<and>
   fst (findByIdentityKey identityKey certifiers records) =
     Inr (map reference_of
           (filter (\<lambda>r. identityKey = Some (subject (certificate r)) \<and>
                       (case certifiers of
                          Some (c # cs) \<Rightarrow> certifier (certificate r) \<in> set (c # cs)
                        | _ \<Rightarrow> True))
              records)) \<and>
   fst (findByCertifier certifiers records) =
     Inr (map reference_of
           (filter (\<lambda>r. within certifiers (certifier (certificate r))) records)) \<and>
   fst (findByCertificateType certificateTypes identityKey certifiers records) =
     Inr (map reference_of
           (filter (\<lambda>r. within certificateTypes (cert_type (certificate r)) \<and>
                       identityKey = Some (subject (certificate r)) \<and>
                       within certifiers (certifier (certificate r)))
              records)) \<and>
   fst (findByCertificateSerialNumber sn records) =
     Inr (map reference_of
           (filter (\<lambda>r. sn = Some (serialNumber (certificate r)) \<and> sn \<noteq> Some []) records)) \<and>
   fst (findByAttribute U attributes certifiers records) =
     (case attributes of
        None \<Rightarrow> Inr []
      | Some attrs \<Rightarrow>
          if list_all (\<lambda>entry. compiles U (snd entry)) (consulted attrs)
          then Inr (map reference_of
                 (filter (\<lambda>r. attrs \<noteq> [] \<and> within certifiers (certifier (certificate r)) \<and>
                             list_all (\<lambda>entry. entry_holds U entry r) (consulted attrs))
                    records))
          else Inl SyntaxError)"
proof -
  have key: "fst (findByIdentityKey identityKey certifiers records) =
     Inr (map reference_of
           (filter (\<lambda>r. identityKey = Some (subject (certificate r)) \<and>
                       (case certifiers of
                          Some (c # cs) \<Rightarrow> certifier (certificate r) \<in> set (c # cs)
                        | _ \<Rightarrow> True))
              records))"
  proof (cases identityKey)
    case None
    then show ?thesis by (simp add: findByIdentityKey_def)
  next
    case (Some k)
    then show ?thesis
      by (auto simp: findByIdentityKey_eq
          intro!: arg_cong[where f = "map reference_of"] filter_cong)
  qed
  have certifier: "fst (findByCertifier certifiers records) =
     Inr (map reference_of
           (filter (\<lambda>r. within certifiers (certifier (certificate r))) records))"
    by (simp add: findByCertifier_def findRecordWithQuery_eq query_simps within_def
        split: option.splits)
  have type: "fst (findByCertificateType certificateTypes identityKey certifiers records) =
     Inr (map reference_of
           (filter (\<lambda>r. within certificateTypes (cert_type (certificate r)) \<and>
                       identityKey = Some (subject (certificate r)) \<and>
                       within certifiers (certifier (certificate r)))
              records))"
    by (auto simp: findByCertificateType_def findRecordWithQuery_eq query_simps within_def
        split: option.splits intro!: arg_cong[where f = "map reference_of"] filter_cong)
  have serial: "fst (findByCertificateSerialNumber sn records) =
     Inr (map reference_of
           (filter (\<lambda>r. sn = Some (serialNumber (certificate r)) \<and> sn \<noteq> Some []) records))"
    by (auto simp: findByCertificateSerialNumber_def findRecordWithQuery_eq query_simps
        split: option.splits intro!: arg_cong[where f = "map reference_of"] filter_cong)
  have "snd (findByAttribute U attributes certifiers records) = records"
    by (simp add: findByAttribute_def findRecordWithQuery_eq split: option.splits sum.splits)
  moreover have "snd (findByIdentityKey identityKey certifiers records) = records"
    by (simp add: findByIdentityKey_def findRecordWithQuery_eq Let_def split: option.splits)
  moreover have "snd (findByCertifier certifiers records) = records"
    by (simp add: findByCertifier_def findRecordWithQuery_eq split: option.splits)
  moreover have "snd (findByCertificateType certificateTypes identityKey certifiers records) = records"
    by (simp add: findByCertificateType_def findRecordWithQuery_eq split: option.splits)
  moreover have "snd (findByCertificateSerialNumber sn records) = records"
    by (simp add: findByCertificateSerialNumber_def findRecordWithQuery_eq split: option.splits)
  ultimately show ?thesis
    using key certifier type serial findByAttribute_eq[of U attributes certifiers records]
    by (simp add: findRecordWithQuery_eq)
qed

text \<open>
  An instance of C10: certificate A stored twice under the same reference is found twice
  by its certifier, and the collection is left as it was.
\<close>

theorem find_operations_frame_witness:
  "findByCertifier (Some [str ''cert1'']) (storeRecord (str ''t1'') 0 certA 6 storeA) =
     (Inr [\<lparr>txid = str ''t1'', outputIndex = 0\<rparr>, \<lparr>txid = str ''t1'', outputIndex = 0\<rparr>],
      storeRecord (str ''t1'') 0 certA 6 storeA)"
proof -
  let ?records = "storeRecord (str ''t1'') 0 certA 6 storeA"
  have "snd (findByCertifier (Some [str ''cert1'']) ?records) = ?records"
    and "fst (findByCertifier (Some [str ''cert1'']) ?records) =
           Inr (map reference_of
                 (filter (\<lambda>r. within (Some [str ''cert1'']) (certifier (certificate r)))
                    ?records))"
    using find_operations_frame[where certifiers = "Some [str ''cert1'']"
        and records = ?records]
    by blast+
  then show ?thesis
    by (simp add: prod_eq_iff within_def storeA_def storeRecord_appends certA_def
        reference_of_def)
qed

lemma scenario_certifier_mismatch:
  "findByAttribute U (Some [(str ''name'', str ''alcSm'')]) (Some [str ''cert2'']) storeA =
     (Inr [], storeA)"
  by code_simp

lemma dotted_key_example:
  "fst (findByAttribute U (Some [(str ''a.b'', str ''x'')]) (Some [str ''cert1''])
          (storeRecord (str ''t9'') 0 (certA\<lparr>fields' := [(str ''a.b'', str ''x'')]\<rparr>) 1 [])) =
     Inr []"
  by code_simp

end
